theory Spec2Isabelle
  imports Main
begin

section \<open>The stream supervisor of \<^verbatim>\<open>src/streamer.js\<close>\<close>

text \<open>
  The module keeps its state in module-level variables and reacts to timers and to the
  lifecycle events of the encoder process. The embedding makes that state a record, every
  function of the module a function on the record, and every callback that the JavaScript
  runtime may run (an encoder event, a fired timeout, an interval tick, a call of the
  exported \<^verbatim>\<open>startStream\<close>) an event of a step function. What the module reads from
  its environment (the random draws, the accessibility of files, the clock, whether
  \<^verbatim>\<open>kill\<close> throws) is an explicit argument.
\<close>

subsection \<open>Constants\<close>

definition MAX_STREAM_ATTEMPTS :: nat where
  "MAX_STREAM_ATTEMPTS = 5"

definition STREAM_RETRY_DELAY :: nat where
  "STREAM_RETRY_DELAY = 10000"

definition HEALTH_CHECK_INTERVAL :: int where
  "HEALTH_CHECK_INTERVAL = 30000"

subsection \<open>Strings: \<^verbatim>\<open>toString\<close>, \<^verbatim>\<open>padStart\<close>, \<^verbatim>\<open>includes\<close>\<close>

text \<open>The character of a decimal digit \<open>d < 10\<close>.\<close>

definition digit_char :: "nat \<Rightarrow> char" where
  "digit_char d = ''0123456789'' ! d"

text \<open>\<^verbatim>\<open>i.toString()\<close> of a non-negative integer: its decimal digits.\<close>

fun toString :: "nat \<Rightarrow> string" where
  "toString n = (if n < 10 then [digit_char n] else toString (n div 10) @ [digit_char (n mod 10)])"

declare toString.simps [simp del]

text \<open>\<^verbatim>\<open>s.padStart(n, c)\<close> with a one-character filler.\<close>

definition padStart :: "nat \<Rightarrow> char \<Rightarrow> string \<Rightarrow> string" where
  "padStart n c s = replicate (n - length s) c @ s"

fun starts_with :: "string \<Rightarrow> string \<Rightarrow> bool" where
  "starts_with s [] = True"
| "starts_with [] (p # ps) = False"
| "starts_with (c # cs) (p # ps) = (c = p \<and> starts_with cs ps)"

text \<open>\<^verbatim>\<open>s.includes(p)\<close>: \<open>p\<close> occurs in \<open>s\<close> as a contiguous substring.\<close>

fun includes_str :: "string \<Rightarrow> string \<Rightarrow> bool" where
  "includes_str [] p = (p = [])"
| "includes_str (c # cs) p = (starts_with (c # cs) p \<or> includes_str cs p)"

subsection \<open>The catalog and the selector\<close>

text \<open>
  \<^verbatim>\<open>for (let i = 0; i <= 144; i++) videoFiles.push(`./assets/${i.toString().padStart(3, '0')}.mp4`)\<close>
\<close>

definition video_name :: "nat \<Rightarrow> string" where
  "video_name i = ''./assets/'' @ padStart 3 (CHR ''0'') (toString i) @ ''.mp4''"

definition videoFiles :: "string list" where
  "videoFiles = map video_name [0..<Suc 144]"

text \<open>
  The errors that the module's promises reject with: the \<^verbatim>\<open>TypeError\<close> of destructuring
  an undefined argument, and the \<^verbatim>\<open>Error\<close> of the selector, with its message.
\<close>

datatype error = TypeError | Error string

definition not_found_message :: "string \<Rightarrow> string" where
  "not_found_message f =
     ''Video file '' @ f @
     '' not found. Please ensure all video files (000.mp4 through 159.mp4) are present in the assets directory.''"

subsection \<open>The module state and its environment\<close>

record config =
  streamKey :: string
  streamUrl :: string

type_synonym handle = nat

datatype promise = Pending | Resolved

text \<open>
  One encoder command built by \<^verbatim>\<open>startStream\<close>: its input, its destination, the
  \<^verbatim>\<open>{streamKey, streamUrl}\<close> that its handlers close over, whether \<^verbatim>\<open>kill\<close> was
  called on it, the state of the promise that the call returned, and whether
  \<^verbatim>\<open>restartStream\<close> is suspended at \<^verbatim>\<open>await startStream(config)\<close> on that promise.
  A handle is the position of the command in the list of all commands built so far.
\<close>

record proc =
  p_input :: string
  p_dest :: string
  p_config :: config
  p_killed :: bool
  p_promise :: promise
  p_awaited :: bool

text \<open>The lines written with \<^verbatim>\<open>console.log\<close> and \<^verbatim>\<open>console.error\<close>, one constructor per call site.\<close>

datatype log_line =
    LogStartingStream string nat
  | LogSelected string
  | ErrAccess string
  | LogPlaylistReset
  | ErrKill
  | LogInit
  | LogProcStarted handle
  | LogStreamStarted string
  | ErrStreaming string
  | LogInterrupted
  | LogEnded
  | LogHealthCheckFailed
  | ErrMaxAttempts
  | LogAttemptRestart nat
  | ErrRestart error

text \<open>
  The module-level variables, then the part of the runtime that the module acts on: the
  commands built, the interval timers that are active, the number of timers created (the
  next timer id), the pending \<^verbatim>\<open>setTimeout\<close> callbacks (each is
  \<^verbatim>\<open>() => restartStream(config)\<close>, kept as its delay and its \<open>config\<close>, where
  \<open>None\<close> is \<^verbatim>\<open>undefined\<close>), and the console. \<open>lastPlayedVideos\<close> is a
  JavaScript \<^verbatim>\<open>Set\<close>: its elements in insertion order, without duplicates.
\<close>

record state =
  streamAttempts :: nat
  isStreamHealthy :: bool
  lastStreamCheck :: int
  currentStream :: "handle option"
  lastPlayedVideos :: "string list"
  streamHealthCheck :: "nat option"
  procs :: "proc list"
  intervals :: "nat list"
  timers_made :: nat
  timeouts :: "(nat \<times> config option) list"
  console :: "log_line list"

text \<open>
  What one callback reads from outside the module: whether \<^verbatim>\<open>fs.access\<close> succeeds
  on a path, the values of \<^verbatim>\<open>Math.floor(Math.random() * videoFiles.length)\<close> in the
  order they are drawn, whether \<^verbatim>\<open>currentStream.kill\<close> throws, and \<^verbatim>\<open>Date.now()\<close>.
\<close>

record env =
  access :: "string \<Rightarrow> bool"
  draws :: "nat list"
  kill_throws :: bool
  now :: int

definition initial :: "int \<Rightarrow> state" where
  "initial t0 =
     \<lparr>streamAttempts = 0, isStreamHealthy = True, lastStreamCheck = t0, currentStream = None,
      lastPlayedVideos = [], streamHealthCheck = None, procs = [], intervals = [],
      timers_made = 0, timeouts = [], console = []\<rparr>"

definition say :: "log_line \<Rightarrow> state \<Rightarrow> state" where
  "say l s = s\<lparr>console := console s @ [l]\<rparr>"

subsection \<open>The operations of a JavaScript \<^verbatim>\<open>Set\<close>\<close>

definition set_has :: "string list \<Rightarrow> string \<Rightarrow> bool" where
  "set_has xs v = (v \<in> set xs)"

definition set_add :: "string list \<Rightarrow> string \<Rightarrow> string list" where
  "set_add xs v = (if set_has xs v then xs else xs @ [v])"

definition set_size :: "string list \<Rightarrow> nat" where
  "set_size xs = length xs"

subsection \<open>\<^verbatim>\<open>getRandomVideoFile\<close> and the redraw loop\<close>

text \<open>
  \<open>randomIndex\<close> is the value of \<^verbatim>\<open>Math.floor(Math.random() * videoFiles.length)\<close>, which is
  below \<open>length videoFiles\<close>. Beyond it \<^verbatim>\<open>videoFiles[randomIndex]\<close> would be
  \<^verbatim>\<open>undefined\<close>, \<^verbatim>\<open>fs.access\<close> would reject, and the \<^verbatim>\<open>catch\<close> block would run.
\<close>

definition getRandomVideoFile :: "(string \<Rightarrow> bool) \<Rightarrow> nat \<Rightarrow> state \<Rightarrow> (error + string) \<times> state" where
  "getRandomVideoFile acc randomIndex s =
     (if randomIndex < length videoFiles then
        (let selectedFile = videoFiles ! randomIndex in
         if acc selectedFile then (Inr selectedFile, say (LogSelected selectedFile) s)
         else (Inl (Error (not_found_message selectedFile)), say (ErrAccess selectedFile) s))
      else (Inl (Error (not_found_message ''undefined'')), say (ErrAccess ''undefined'') s))"

text \<open>
  \<^verbatim>\<open>do { videoPath = await getRandomVideoFile(); }
  while (lastPlayedVideos.has(videoPath) && lastPlayedVideos.size < 61);\<close>
  The list holds the draws still to come; when it is used up the loop has not left yet
  (\<open>None\<close>). An exception of \<^verbatim>\<open>getRandomVideoFile\<close> leaves the loop and the caller.
\<close>

fun pick_loop :: "(string \<Rightarrow> bool) \<Rightarrow> nat list \<Rightarrow> state \<Rightarrow> (error + string) option \<times> state" where
  "pick_loop acc [] s = (None, s)"
| "pick_loop acc (d # ds) s =
     (case getRandomVideoFile acc d s of
        (Inl err, s1) \<Rightarrow> (Some (Inl err), s1)
      | (Inr videoPath, s1) \<Rightarrow>
          if set_has (lastPlayedVideos s1) videoPath \<and> set_size (lastPlayedVideos s1) < 61
          then pick_loop acc ds s1
          else (Some (Inr videoPath), s1))"

subsection \<open>\<^verbatim>\<open>startStream\<close>\<close>

text \<open>\<^verbatim>\<open>currentStream.kill('SIGTERM')\<close>, when it does not throw.\<close>

definition kill :: "handle \<Rightarrow> state \<Rightarrow> state" where
  "kill h s =
     (if h < length (procs s) then s\<lparr>procs := (procs s)[h := (procs s ! h)\<lparr>p_killed := True\<rparr>]\<rparr>
      else s)"

text \<open>\<^verbatim>\<open>clearInterval(t)\<close>; \<^verbatim>\<open>clearInterval(undefined)\<close> does nothing.\<close>

definition clearInterval :: "nat option \<Rightarrow> state \<Rightarrow> state" where
  "clearInterval t s =
     (case t of None \<Rightarrow> s | Some i \<Rightarrow> s\<lparr>intervals := removeAll i (intervals s)\<rparr>)"

text \<open>
  \<^verbatim>\<open>if (currentStream) { try { currentStream.kill('SIGTERM'); clearInterval(streamHealthCheck); }
  catch (error) { console.error('Error killing previous stream:', error); } }\<close>
\<close>

definition kill_previous :: "env \<Rightarrow> state \<Rightarrow> state" where
  "kill_previous e s =
     (case currentStream s of
        None \<Rightarrow> s
      | Some h \<Rightarrow>
          if kill_throws e then say ErrKill s
          else clearInterval (streamHealthCheck s) (kill h s))"

text \<open>
  The executor of the returned promise: it builds the encoder command for
  \<open>videoPath\<close>, registers the three handlers and calls \<^verbatim>\<open>save(streamDestination)\<close>.
  The promise is pending when the executor returns.
\<close>

definition launch :: "config \<Rightarrow> string \<Rightarrow> state \<Rightarrow> handle \<times> state" where
  "launch c videoPath s =
     (length (procs s),
      (say LogInit s)\<lparr>procs := procs s @
         [\<lparr>p_input = videoPath, p_dest = streamUrl c @ ''/'' @ streamKey c, p_config = c,
           p_killed = False, p_promise = Pending, p_awaited = False\<rparr>]\<rparr>)"

text \<open>
  A call of \<^verbatim>\<open>startStream\<close>, up to the point where it returns its promise. The result is
  \<open>Some (Inl err)\<close> when the promise is rejected with \<open>err\<close>, \<open>Some (Inr h)\<close> when the
  promise is pending on the command \<open>h\<close>, and \<open>None\<close> when the redraw loop has not
  left. Destructuring \<^verbatim>\<open>{ streamKey, streamUrl }\<close> from \<^verbatim>\<open>undefined\<close> throws a
  \<^verbatim>\<open>TypeError\<close> before the body runs. The suspensions at \<^verbatim>\<open>await\<close> inside the call are
  taken without another callback running in between.
\<close>

definition startStream :: "env \<Rightarrow> config option \<Rightarrow> state \<Rightarrow> (error + handle) option \<times> state" where
  "startStream e cfg s =
     (case cfg of
        None \<Rightarrow> (Some (Inl TypeError), s)
      | Some c \<Rightarrow>
          (case pick_loop (access e) (draws e)
                  (say (LogStartingStream (streamUrl c) (length (streamKey c))) s) of
             (None, s1) \<Rightarrow> (None, s1)
           | (Some (Inl err), s1) \<Rightarrow> (Some (Inl err), s1)
           | (Some (Inr videoPath), s1) \<Rightarrow>
               (let s2 = s1\<lparr>lastPlayedVideos := set_add (lastPlayedVideos s1) videoPath\<rparr>;
                    s3 = (if 61 \<le> set_size (lastPlayedVideos s2)
                          then say LogPlaylistReset (s2\<lparr>lastPlayedVideos := []\<rparr>)
                          else s2);
                    s4 = kill_previous e s3;
                    (h, s5) = launch c videoPath s4
                in (Some (Inr h), s5))))"

subsection \<open>\<^verbatim>\<open>resetStreamState\<close>, \<^verbatim>\<open>restartStream\<close>, \<^verbatim>\<open>monitorStreamHealth\<close>\<close>

definition resetStreamState :: "int \<Rightarrow> state \<Rightarrow> state" where
  "resetStreamState t s = s\<lparr>streamAttempts := 0, isStreamHealthy := True, lastStreamCheck := t\<rparr>"

text \<open>\<^verbatim>\<open>restartStream\<close> suspends at \<^verbatim>\<open>await startStream(config)\<close> on the promise of \<open>h\<close>.\<close>

definition await_start :: "handle \<Rightarrow> state \<Rightarrow> state" where
  "await_start h s =
     (if h < length (procs s) then s\<lparr>procs := (procs s)[h := (procs s ! h)\<lparr>p_awaited := True\<rparr>]\<rparr>
      else s)"

text \<open>
  \<^verbatim>\<open>restartStream(config)\<close> up to its suspension or its return. A rejected promise runs
  the \<^verbatim>\<open>catch\<close> block, which schedules the retry; a pending one leaves the call
  suspended, and \<^verbatim>\<open>resetStreamState()\<close> runs when the promise is resolved (see
  \<open>resolve\<close> below).
\<close>

definition restartStream :: "env \<Rightarrow> config option \<Rightarrow> state \<Rightarrow> state option" where
  "restartStream e cfg s =
     (if MAX_STREAM_ATTEMPTS \<le> streamAttempts s then Some (say ErrMaxAttempts s)
      else
        (let s1 = say (LogAttemptRestart (streamAttempts s + 1)) s;
             s2 = s1\<lparr>streamAttempts := streamAttempts s1 + 1\<rparr>
         in case startStream e cfg s2 of
              (None, s3) \<Rightarrow> None
            | (Some (Inl err), s3) \<Rightarrow>
                Some ((say (ErrRestart err) s3)
                        \<lparr>timeouts := timeouts s3 @ [(STREAM_RETRY_DELAY, cfg)]\<rparr>)
            | (Some (Inr h), s3) \<Rightarrow> Some (await_start h s3)))"

text \<open>
  \<^verbatim>\<open>restartStream()\<close> is called without argument and is not awaited. Its \<^verbatim>\<open>catch\<close> block
  runs after the monitor has returned; it writes \<open>timeouts\<close> and the console, the monitor
  writes \<open>lastStreamCheck\<close>, so the order of the two does not show in the state.
\<close>

definition monitorStreamHealth :: "env \<Rightarrow> state \<Rightarrow> state option" where
  "monitorStreamHealth e s =
     (case currentStream s of
        None \<Rightarrow> Some s
      | Some h \<Rightarrow>
          if now e - lastStreamCheck s > HEALTH_CHECK_INTERVAL then
            (case (if \<not> isStreamHealthy s
                   then restartStream e None (say LogHealthCheckFailed s)
                   else Some s) of
               None \<Rightarrow> None
             | Some s1 \<Rightarrow> Some (s1\<lparr>lastStreamCheck := now e\<rparr>))
          else Some s)"

subsection \<open>The handlers of the encoder events\<close>

definition setInterval :: "state \<Rightarrow> state" where
  "setInterval s =
     s\<lparr>streamHealthCheck := Some (timers_made s),
       intervals := intervals s @ [timers_made s],
       timers_made := Suc (timers_made s)\<rparr>"

text \<open>
  \<^verbatim>\<open>resolve()\<close> on the promise of \<open>h\<close>. It settles a pending promise only; if
  \<^verbatim>\<open>restartStream\<close> awaits it, the rest of its \<^verbatim>\<open>try\<close> block runs:
  \<^verbatim>\<open>resetStreamState()\<close>.
\<close>

definition resolve :: "env \<Rightarrow> handle \<Rightarrow> state \<Rightarrow> state" where
  "resolve e h s =
     (let p = procs s ! h in
      if p_promise p = Pending then
        (let s1 = s\<lparr>procs := (procs s)[h := p\<lparr>p_promise := Resolved\<rparr>]\<rparr>
         in if p_awaited p then resetStreamState (now e) s1 else s1)
      else s)"

text \<open>
  The \<^verbatim>\<open>start\<close> handler. \<^verbatim>\<open>Date.now()\<close> in the handler and in \<^verbatim>\<open>resetStreamState\<close>, which
  runs in the same turn of the event loop, is the one reading \<open>now e\<close>.
\<close>

definition on_start :: "env \<Rightarrow> handle \<Rightarrow> state \<Rightarrow> state" where
  "on_start e h s =
     (let s1 = say (LogStreamStarted (p_input (procs s ! h))) (say (LogProcStarted h) s);
          s2 = s1\<lparr>currentStream := Some h, isStreamHealthy := True, lastStreamCheck := now e\<rparr>;
          s3 = setInterval s2
      in resolve e h s3)"

text \<open>
  The \<^verbatim>\<open>error\<close> handler; \<open>ErrStreaming\<close> stands for its three \<^verbatim>\<open>console.error\<close> lines (the
  message, stdout and stderr of the encoder). \<^verbatim>\<open>restartStream({ streamKey, streamUrl })\<close> in
  the two handlers is called with the fields of the \<^verbatim>\<open>startStream\<close> call that built the
  command.
\<close>

definition on_error :: "handle \<Rightarrow> string \<Rightarrow> state \<Rightarrow> state" where
  "on_error h message s =
     (let s1 = (say (ErrStreaming message) s)\<lparr>isStreamHealthy := False\<rparr> in
      if includes_str message ''SIGKILL'' \<or> includes_str message ''Connection refused''
         \<or> includes_str message ''Connection timed out''
      then (say LogInterrupted s1)
             \<lparr>timeouts := timeouts s1 @ [(STREAM_RETRY_DELAY, Some (p_config (procs s ! h)))]\<rparr>
      else s1)"

definition on_end :: "handle \<Rightarrow> state \<Rightarrow> state" where
  "on_end h s =
     (let s1 = (say LogEnded s)\<lparr>isStreamHealthy := False\<rparr> in
      s1\<lparr>timeouts := timeouts s1 @ [(STREAM_RETRY_DELAY, Some (p_config (procs s ! h)))]\<rparr>)"

subsection \<open>The callbacks as events\<close>

text \<open>
  \<open>StartStreamCall\<close> is a call of the exported function by the embedding application;
  \<open>Started\<close>, \<open>Failed\<close> and \<open>Ended\<close> are the events \<^verbatim>\<open>start\<close>, \<^verbatim>\<open>error\<close> and \<^verbatim>\<open>end\<close> of
  a command; \<open>TimeoutFired i\<close> runs the \<open>i\<close>-th pending \<^verbatim>\<open>setTimeout\<close> callback;
  \<open>IntervalTick t\<close> runs the callback of the interval timer \<open>t\<close>. An event of a command
  that was never built, of a timeout that is not pending or of an interval that is not
  active changes nothing.
\<close>

datatype event =
    StartStreamCall env "config option"
  | Started env handle
  | Failed handle string
  | Ended handle
  | TimeoutFired env nat
  | IntervalTick env nat

definition step :: "event \<Rightarrow> state \<Rightarrow> state option" where
  "step ev s =
     (case ev of
        StartStreamCall e cfg \<Rightarrow>
          (case startStream e cfg s of (None, s1) \<Rightarrow> None | (Some r, s1) \<Rightarrow> Some s1)
      | Started e h \<Rightarrow> Some (if h < length (procs s) then on_start e h s else s)
      | Failed h message \<Rightarrow> Some (if h < length (procs s) then on_error h message s else s)
      | Ended h \<Rightarrow> Some (if h < length (procs s) then on_end h s else s)
      | TimeoutFired e i \<Rightarrow>
          (if i < length (timeouts s)
           then restartStream e (snd (timeouts s ! i))
                  (s\<lparr>timeouts := take i (timeouts s) @ drop (Suc i) (timeouts s)\<rparr>)
           else Some s)
      | IntervalTick e t \<Rightarrow>
          (if t \<in> set (intervals s) then monitorStreamHealth e s else Some s))"

fun run :: "event list \<Rightarrow> state \<Rightarrow> state option" where
  "run [] s = Some s"
| "run (ev # evs) s = (case step ev s of None \<Rightarrow> None | Some s1 \<Rightarrow> run evs s1)"

subsection \<open>What a run shows of the restart path\<close>

text \<open>
  Every call of \<^verbatim>\<open>restartStream\<close> first writes one of two lines, the halt message or the
  attempt message, and no other function writes them: a call was made between two states
  exactly when the console has gained such a line.
\<close>

fun is_restart_line :: "log_line \<Rightarrow> bool" where
  "is_restart_line ErrMaxAttempts = True"
| "is_restart_line (LogAttemptRestart n) = True"
| "is_restart_line l = False"

definition restart_entered :: "state \<Rightarrow> state \<Rightarrow> bool" where
  "restart_entered s s' = list_ex is_restart_line (drop (length (console s)) (console s'))"

fun is_call :: "event \<Rightarrow> bool" where
  "is_call (StartStreamCall e cfg) = True"
| "is_call ev = False"

fun started_handle :: "event \<Rightarrow> handle option" where
  "started_handle (Started e h) = Some h"
| "started_handle ev = None"

subsection \<open>The selection as the specification words it\<close>

text \<open>
  The specification's algorithm, for comparison with \<open>pick_loop\<close>: a drawn id that is in
  the recently played set, while the set is below its capacity, is redrawn; only the id
  that is chosen has its file checked, and an inaccessible file raises.
\<close>

fun spec_pick :: "(string \<Rightarrow> bool) \<Rightarrow> nat list \<Rightarrow> string list \<Rightarrow> (error + string) option" where
  "spec_pick acc [] played = None"
| "spec_pick acc (d # ds) played =
     (let f = videoFiles ! d in
      if set_has played f \<and> set_size played < 61 then spec_pick acc ds played
      else if acc f then Some (Inr f)
      else Some (Inl (Error (not_found_message f))))"

subsection \<open>A configuration and environments for concrete runs\<close>

definition cfg0 :: config where
  "cfg0 = \<lparr>streamKey = ''abc'', streamUrl = ''rtmp://host''\<rparr>"

text \<open>All files accessible, \<^verbatim>\<open>kill\<close> does not throw.\<close>

definition env_ok :: "nat list \<Rightarrow> int \<Rightarrow> env" where
  "env_ok ds t = \<lparr>access = (\<lambda>f. True), draws = ds, kill_throws = False, now = t\<rparr>"

text \<open>The same, but \<^verbatim>\<open>kill\<close> throws.\<close>

definition env_kill_throws :: "nat list \<Rightarrow> int \<Rightarrow> env" where
  "env_kill_throws ds t = \<lparr>access = (\<lambda>f. True), draws = ds, kill_throws = True, now = t\<rparr>"

text \<open>The file of id 0 has become inaccessible.\<close>

definition env_missing_000 :: "nat list \<Rightarrow> int \<Rightarrow> env" where
  "env_missing_000 ds t =
     \<lparr>access = (\<lambda>f. f \<noteq> ''./assets/000.mp4''), draws = ds, kill_throws = False, now = t\<rparr>"

text \<open>
  A run in which the first session ends and five restart attempts fail in a row: each
  attempt launches an encoder that reports \<^verbatim>\<open>Connection refused\<close> before it starts.
\<close>

definition five_failures :: "event list" where
  "five_failures =
     [StartStreamCall (env_ok [42] 0) (Some cfg0), Started (env_ok [] 5) 0, Ended 0,
      TimeoutFired (env_ok [1] 10005) 0, Failed 1 ''Connection refused'',
      TimeoutFired (env_ok [2] 20005) 0, Failed 2 ''Connection refused'',
      TimeoutFired (env_ok [3] 30005) 0, Failed 3 ''Connection refused'',
      TimeoutFired (env_ok [4] 40005) 0, Failed 4 ''Connection refused'',
      TimeoutFired (env_ok [5] 50005) 0, Failed 5 ''Connection refused'']"

text \<open>Timers and encoder events that arrive after the halt.\<close>

definition after_halt :: "event list" where
  "after_halt =
     [TimeoutFired (env_ok [6] 60005) 0, IntervalTick (env_ok [7] 90000) 0,
      Failed 5 ''Connection timed out'', TimeoutFired (env_ok [8] 100000) 0, Ended 4]"

text \<open>A state in which sixty different videos have been played since the last reset.\<close>

definition sixty_played :: state where
  "sixty_played = (initial 0)\<lparr>lastPlayedVideos := map video_name [0..<60]\<rparr>"

text \<open>A live session whose encoder then fails with a message of no recognised kind.\<close>

definition unhealthy_run :: "event list" where
  "unhealthy_run =
     [StartStreamCall (env_ok [42] 0) (Some cfg0), Started (env_ok [] 5) 0,
      Failed 0 ''Invalid data found when processing input'']"

text \<open>A live session.\<close>

definition live_run :: "event list" where
  "live_run = [StartStreamCall (env_ok [42] 0) (Some cfg0), Started (env_ok [] 5) 0]"

text \<open>A second call while a session is live, in which \<^verbatim>\<open>kill\<close> throws.\<close>

definition kill_throws_run :: "event list" where
  "kill_throws_run =
     [StartStreamCall (env_ok [42] 0) (Some cfg0), Started (env_ok [] 5) 0,
      StartStreamCall (env_kill_throws [7] 9) (Some cfg0)]"

text \<open>
  After the halt, the application calls \<^verbatim>\<open>startStream\<close> again and the encoder starts;
  then that encoder fails with a recognised message and the retry timer fires.
\<close>

definition manual_restart :: "event list" where
  "manual_restart =
     five_failures @
     [TimeoutFired (env_ok [6] 60005) 0,
      StartStreamCall (env_ok [9] 70000) (Some cfg0), Started (env_ok [] 70005) 6]"

definition manual_restart_fails :: "event list" where
  "manual_restart_fails =
     manual_restart @ [Failed 6 ''Connection refused'', TimeoutFired (env_ok [10] 80005) 0]"

text \<open>
  The same failure, followed by the health check of the monitor and by every retry timer
  that it leads to.
\<close>

definition unhealthy_then_timers :: "event list" where
  "unhealthy_then_timers =
     unhealthy_run @
     [IntervalTick (env_ok [1] 40000) 0, TimeoutFired (env_ok [2] 50000) 0,
      TimeoutFired (env_ok [3] 60000) 0, TimeoutFired (env_ok [4] 70000) 0,
      TimeoutFired (env_ok [5] 80000) 0, TimeoutFired (env_ok [6] 90000) 0]"

text \<open>The file of id 0 was played and has since become inaccessible.\<close>

definition played_000 :: state where
  "played_000 = (initial 0)\<lparr>lastPlayedVideos := [''./assets/000.mp4'']\<rparr>"

section \<open>Properties\<close>

subsection \<open>The catalog\<close>

lemma toString_lt10: "n < 10 \<Longrightarrow> toString n = [digit_char n]"
  by (subst toString.simps) simp

lemma toString_ge10: "10 \<le> n \<Longrightarrow> toString n = toString (n div 10) @ [digit_char (n mod 10)]"
  by (subst toString.simps) simp

lemma toString_2:
  assumes "10 \<le> n" "n < 100"
  shows "toString n = [digit_char (n div 10), digit_char (n mod 10)]"
proof -
  from assms have "n div 10 < 10" by arith
  with assms show ?thesis by (simp only: toString_ge10 toString_lt10 append.simps)
qed

lemma toString_3:
  assumes "100 \<le> n" "n < 1000"
  shows "toString n = [digit_char (n div 100), digit_char (n div 10 mod 10), digit_char (n mod 10)]"
proof -
  from assms have b: "10 \<le> n div 10" "n div 10 < 100" "10 \<le> n" by arith+
  have c: "n div 10 div 10 = n div 100" by (simp add: div_mult2_eq)
  from b show ?thesis
    by (simp only: toString_ge10[of n] toString_2[of "n div 10"] c append.simps)
qed

lemma replicate_two: "replicate 2 c = [c, c]"
  by (simp add: numeral_2_eq_2)

lemma digit_char_0: "digit_char 0 = CHR ''0''"
  by (simp add: digit_char_def)

lemma padStart_toString:
  assumes "i < 1000"
  shows "padStart 3 (CHR ''0'') (toString i) =
         [digit_char (i div 100), digit_char (i div 10 mod 10), digit_char (i mod 10)]"
proof -
  consider "i < 10" | "10 \<le> i" "i < 100" | "100 \<le> i" by linarith
  then show ?thesis
  proof cases
    case 1
    then show ?thesis by (simp add: toString_lt10 padStart_def digit_char_0 replicate_two)
  next
    case 2
    then have "i div 100 = 0" by simp
    with 2 show ?thesis by (simp add: toString_2 padStart_def digit_char_0 replicate_two)
  next
    case 3
    with assms show ?thesis by (simp add: toString_3 padStart_def)
  qed
qed

lemma video_name_digits:
  "i < 1000 \<Longrightarrow> video_name i =
     ''./assets/'' @ [digit_char (i div 100), digit_char (i div 10 mod 10), digit_char (i mod 10)] @ ''.mp4''"
  by (simp add: video_name_def padStart_toString)

lemma below_ten: "a < (10::nat) \<Longrightarrow>
    a = 0 \<or> a = 1 \<or> a = 2 \<or> a = 3 \<or> a = 4 \<or> a = 5 \<or> a = 6 \<or> a = 7 \<or> a = 8 \<or> a = 9"
  by arith

lemma digit_char_inj: "a < 10 \<Longrightarrow> b < 10 \<Longrightarrow> digit_char a = digit_char b \<Longrightarrow> a = b"
  using below_ten[of a] below_ten[of b] by (auto simp: digit_char_def)

lemma three_digits: "(i::nat) = 100 * (i div 100) + 10 * (i div 10 mod 10) + i mod 10"
proof -
  have a: "i = 10 * (i div 10) + i mod 10" by simp
  have b: "i div 10 = 10 * (i div 10 div 10) + i div 10 mod 10" by simp
  have c: "i div 10 div 10 = i div 100" by (simp add: div_mult2_eq)
  from b c have "i div 10 = 10 * (i div 100) + i div 10 mod 10" by simp
  then have "10 * (i div 10) = 100 * (i div 100) + 10 * (i div 10 mod 10)" by simp
  with a show ?thesis by linarith
qed

lemma video_name_inj:
  assumes "i < 1000" "j < 1000" and e: "video_name i = video_name j"
  shows "i = j"
proof -
  from e assms(1,2) have d: "digit_char (i div 100) = digit_char (j div 100)"
    "digit_char (i div 10 mod 10) = digit_char (j div 10 mod 10)"
    "digit_char (i mod 10) = digit_char (j mod 10)"
    by (simp_all add: video_name_digits)
  from assms(1,2) have "i div 100 < 10" "j div 100 < 10" by arith+
  then have h: "i div 100 = j div 100" using d(1) by (rule digit_char_inj)
  have "i div 10 mod 10 < 10" "j div 10 mod 10 < 10" by simp_all
  then have t: "i div 10 mod 10 = j div 10 mod 10" using d(2) by (rule digit_char_inj)
  have "i mod 10 < 10" "j mod 10 < 10" by simp_all
  then have u: "i mod 10 = j mod 10" using d(3) by (rule digit_char_inj)
  from h t u show "i = j" using three_digits[of i] three_digits[of j] by simp
qed

lemma videoFiles_nth: "i < 145 \<Longrightarrow> videoFiles ! i = video_name i"
  unfolding videoFiles_def by (simp del: upt_Suc)

lemma length_videoFiles: "length videoFiles = 145"
  unfolding videoFiles_def by simp

lemma distinct_videoFiles: "distinct videoFiles"
  unfolding videoFiles_def distinct_map
  by (auto simp del: upt_Suc intro!: inj_onI dest: video_name_inj[rotated 2])

lemma video_name_not_in_catalog: "145 \<le> k \<Longrightarrow> k < 1000 \<Longrightarrow> video_name k \<notin> set videoFiles"
  unfolding videoFiles_def
  by (auto simp del: upt_Suc dest: video_name_inj[rotated 2])

lemma includes_str_append: "includes_str b p \<Longrightarrow> includes_str (a @ b) p"
  by (induction a) auto

lemma message_names_159: "includes_str (not_found_message f) ''(000.mp4 through 159.mp4)''"
  unfolding not_found_message_def
  by (intro includes_str_append) simp

text \<open>
  Claim C10. The catalog that \<^verbatim>\<open>getRandomVideoFile\<close> builds is the list of the 145 paths
  \<^verbatim>\<open>./assets/000.mp4\<close> to \<^verbatim>\<open>./assets/144.mp4\<close>: the id written with three decimal digits,
  145 different entries, the first for id 0 and the last for id 144, and no entry for the
  ids 145 to 159; the message of the selector's error names the range as
  \<^verbatim>\<open>000.mp4 through 159.mp4\<close> all the same.
\<close>

theorem catalog_is_000_to_144:
  "videoFiles =
     map (\<lambda>i. ''./assets/'' @ [digit_char (i div 100), digit_char (i div 10 mod 10), digit_char (i mod 10)]
               @ ''.mp4'') [0..<145]
   \<and> length videoFiles = 145 \<and> distinct videoFiles
   \<and> videoFiles ! 0 = ''./assets/000.mp4'' \<and> videoFiles ! 144 = ''./assets/144.mp4''
   \<and> set (map video_name [145..<160]) \<inter> set videoFiles = {}
   \<and> video_name 159 = ''./assets/159.mp4''
   \<and> includes_str (not_found_message f) ''(000.mp4 through 159.mp4)''"
proof -
  have "videoFiles =
     map (\<lambda>i. ''./assets/'' @ [digit_char (i div 100), digit_char (i div 10 mod 10), digit_char (i mod 10)]
               @ ''.mp4'') [0..<145]"
    unfolding videoFiles_def by (rule map_cong) (simp_all add: video_name_digits del: upt_Suc)
  moreover have "videoFiles ! 0 = ''./assets/000.mp4''"
    by (simp add: videoFiles_nth video_name_digits digit_char_def)
  moreover have "videoFiles ! 144 = ''./assets/144.mp4''"
    by (simp add: videoFiles_nth video_name_digits digit_char_def)
  moreover have "set (map video_name [145..<160]) \<inter> set videoFiles = {}"
    using video_name_not_in_catalog by (auto simp del: upt_Suc)
  moreover have "video_name 159 = ''./assets/159.mp4''"
    by (simp add: video_name_digits digit_char_def)
  ultimately show ?thesis
    using length_videoFiles distinct_videoFiles message_names_159 by blast
qed

subsection \<open>Frames of the selector\<close>

lemma say_fields [simp]:
  "streamAttempts (say l s) = streamAttempts s"
  "isStreamHealthy (say l s) = isStreamHealthy s"
  "lastStreamCheck (say l s) = lastStreamCheck s"
  "currentStream (say l s) = currentStream s"
  "lastPlayedVideos (say l s) = lastPlayedVideos s"
  "streamHealthCheck (say l s) = streamHealthCheck s"
  "procs (say l s) = procs s"
  "intervals (say l s) = intervals s"
  "timers_made (say l s) = timers_made s"
  "timeouts (say l s) = timeouts s"
  "console (say l s) = console s @ [l]"
  by (simp_all add: say_def)

lemma getRandomVideoFile_frame:
  "getRandomVideoFile acc d s = (r, s') \<Longrightarrow> \<exists>l. s' = say l s"
  by (auto simp: getRandomVideoFile_def Let_def split: if_splits)

lemma pick_loop_frame:
  "pick_loop acc ds s = (r, s') \<Longrightarrow> \<exists>ls. s' = s\<lparr>console := console s @ ls\<rparr>"
proof (induction ds arbitrary: s)
  case Nil
  then show ?case by (auto intro: exI[of _ "[]"])
next
  case (Cons d ds)
  obtain r1 s1 where g: "getRandomVideoFile acc d s = (r1, s1)" by (cases "getRandomVideoFile acc d s")
  then obtain l where s1: "s1 = say l s" using getRandomVideoFile_frame by blast
  show ?case
  proof (cases r1)
    case (Inl err)
    with Cons.prems g s1 show ?thesis by (auto simp: say_def intro: exI[of _ "[l]"])
  next
    case (Inr v)
    show ?thesis
    proof (cases "set_has (lastPlayedVideos s1) v \<and> set_size (lastPlayedVideos s1) < 61")
      case True
      with Cons.prems g Inr have "pick_loop acc ds s1 = (r, s')" by simp
      from Cons.IH[OF this] obtain ls where "s' = s1\<lparr>console := console s1 @ ls\<rparr>" by blast
      with s1 show ?thesis by (auto simp: say_def intro: exI[of _ "l # ls"])
    next
      case False
      with Cons.prems g Inr s1 show ?thesis by (auto simp: say_def intro: exI[of _ "[l]"])
    qed
  qed
qed

lemma pick_loop_fields:
  assumes "pick_loop acc ds s = (r, s')"
  shows "streamAttempts s' = streamAttempts s" "isStreamHealthy s' = isStreamHealthy s"
    "lastStreamCheck s' = lastStreamCheck s" "currentStream s' = currentStream s"
    "lastPlayedVideos s' = lastPlayedVideos s" "streamHealthCheck s' = streamHealthCheck s"
    "procs s' = procs s" "intervals s' = intervals s" "timers_made s' = timers_made s"
    "timeouts s' = timeouts s"
  using pick_loop_frame[OF assms] by auto

subsection \<open>\<^verbatim>\<open>startStream\<close> by cases\<close>

lemma kill_fields [simp]:
  "streamAttempts (kill h s) = streamAttempts s"
  "isStreamHealthy (kill h s) = isStreamHealthy s"
  "lastStreamCheck (kill h s) = lastStreamCheck s"
  "currentStream (kill h s) = currentStream s"
  "lastPlayedVideos (kill h s) = lastPlayedVideos s"
  "streamHealthCheck (kill h s) = streamHealthCheck s"
  "intervals (kill h s) = intervals s"
  "timers_made (kill h s) = timers_made s"
  "timeouts (kill h s) = timeouts s"
  "console (kill h s) = console s"
  "length (procs (kill h s)) = length (procs s)"
  by (simp_all add: kill_def)

lemma clearInterval_fields [simp]:
  "streamAttempts (clearInterval t s) = streamAttempts s"
  "isStreamHealthy (clearInterval t s) = isStreamHealthy s"
  "lastStreamCheck (clearInterval t s) = lastStreamCheck s"
  "currentStream (clearInterval t s) = currentStream s"
  "lastPlayedVideos (clearInterval t s) = lastPlayedVideos s"
  "streamHealthCheck (clearInterval t s) = streamHealthCheck s"
  "procs (clearInterval t s) = procs s"
  "timers_made (clearInterval t s) = timers_made s"
  "timeouts (clearInterval t s) = timeouts s"
  "console (clearInterval t s) = console s"
  by (simp_all add: clearInterval_def split: option.splits)

lemma kill_previous_fields [simp]:
  "streamAttempts (kill_previous e s) = streamAttempts s"
  "isStreamHealthy (kill_previous e s) = isStreamHealthy s"
  "lastStreamCheck (kill_previous e s) = lastStreamCheck s"
  "currentStream (kill_previous e s) = currentStream s"
  "lastPlayedVideos (kill_previous e s) = lastPlayedVideos s"
  "streamHealthCheck (kill_previous e s) = streamHealthCheck s"
  "timers_made (kill_previous e s) = timers_made s"
  "timeouts (kill_previous e s) = timeouts s"
  "length (procs (kill_previous e s)) = length (procs s)"
  by (simp_all add: kill_previous_def split: option.splits)

lemma launch_fields [simp]:
  "streamAttempts (snd (launch c v s)) = streamAttempts s"
  "isStreamHealthy (snd (launch c v s)) = isStreamHealthy s"
  "lastStreamCheck (snd (launch c v s)) = lastStreamCheck s"
  "currentStream (snd (launch c v s)) = currentStream s"
  "lastPlayedVideos (snd (launch c v s)) = lastPlayedVideos s"
  "streamHealthCheck (snd (launch c v s)) = streamHealthCheck s"
  "intervals (snd (launch c v s)) = intervals s"
  "timers_made (snd (launch c v s)) = timers_made s"
  "timeouts (snd (launch c v s)) = timeouts s"
  "console (snd (launch c v s)) = console s @ [LogInit]"
  "fst (launch c v s) = length (procs s)"
  "procs (snd (launch c v s)) = procs s @
     [\<lparr>p_input = v, p_dest = streamUrl c @ ''/'' @ streamKey c, p_config = c,
       p_killed = False, p_promise = Pending, p_awaited = False\<rparr>]"
  by (simp_all add: launch_def)

text \<open>
  The four ways a call of \<^verbatim>\<open>startStream\<close> can go: an undefined argument, a redraw loop that
  has not left, a selector error, and a launch.
\<close>

lemma startStream_cases:
  assumes "startStream e cfg s = (r, s')"
  obtains (undefined_config) "cfg = None" "r = Some (Inl TypeError)" "s' = s"
  | (spinning) c where "cfg = Some c" "r = None"
      "pick_loop (access e) (draws e) (say (LogStartingStream (streamUrl c) (length (streamKey c))) s) = (None, s')"
  | (rejected) c err where "cfg = Some c" "r = Some (Inl err)"
      "pick_loop (access e) (draws e) (say (LogStartingStream (streamUrl c) (length (streamKey c))) s) = (Some (Inl err), s')"
  | (launched) c v s1 s3 where "cfg = Some c" "r = Some (Inr (length (procs s)))"
      "pick_loop (access e) (draws e) (say (LogStartingStream (streamUrl c) (length (streamKey c))) s) = (Some (Inr v), s1)"
      "s3 = (if 61 \<le> set_size (set_add (lastPlayedVideos s) v)
             then say LogPlaylistReset (s1\<lparr>lastPlayedVideos := []\<rparr>)
             else s1\<lparr>lastPlayedVideos := set_add (lastPlayedVideos s) v\<rparr>)"
      "s' = snd (launch c v (kill_previous e s3))"
proof (cases cfg)
  case None
  with assms undefined_config show ?thesis by (simp add: startStream_def)
next
  case (Some c)
  let ?s0 = "say (LogStartingStream (streamUrl c) (length (streamKey c))) s"
  obtain r1 s1 where p: "pick_loop (access e) (draws e) ?s0 = (r1, s1)"
    by (cases "pick_loop (access e) (draws e) ?s0")
  note f = pick_loop_fields[OF p]
  show ?thesis
  proof (cases r1)
    case None
    with assms Some p have "r = None" "s' = s1" by (simp_all add: startStream_def)
    with spinning[OF Some] p None show ?thesis by simp
  next
    case (Some a)
    note Some' = Some
    show ?thesis
    proof (cases a)
      case (Inl err)
      with assms \<open>cfg = Some c\<close> Some' p have "r = Some (Inl err)" "s' = s1"
        by (simp_all add: startStream_def)
      with rejected[OF \<open>cfg = Some c\<close>] p Some' Inl show ?thesis by simp
    next
      case (Inr v)
      with assms \<open>cfg = Some c\<close> Some' p f
      have "r = Some (Inr (length (procs s)))"
        and "s' = snd (launch c v (kill_previous e (if 61 \<le> set_size (set_add (lastPlayedVideos s) v)
             then say LogPlaylistReset (s1\<lparr>lastPlayedVideos := []\<rparr>)
             else s1\<lparr>lastPlayedVideos := set_add (lastPlayedVideos s) v\<rparr>)))"
        by (auto simp: startStream_def Let_def case_prod_beta split: if_splits)
      with launched[OF \<open>cfg = Some c\<close> _ _ refl] p Some' Inr show ?thesis by simp
    qed
  qed
qed

subsection \<open>\<^verbatim>\<open>restartStream\<close>\<close>

lemma await_start_fields [simp]:
  "streamAttempts (await_start h s) = streamAttempts s"
  "isStreamHealthy (await_start h s) = isStreamHealthy s"
  "lastStreamCheck (await_start h s) = lastStreamCheck s"
  "currentStream (await_start h s) = currentStream s"
  "lastPlayedVideos (await_start h s) = lastPlayedVideos s"
  "streamHealthCheck (await_start h s) = streamHealthCheck s"
  "intervals (await_start h s) = intervals s"
  "timers_made (await_start h s) = timers_made s"
  "timeouts (await_start h s) = timeouts s"
  "console (await_start h s) = console s"
  "length (procs (await_start h s)) = length (procs s)"
  by (simp_all add: await_start_def)

lemma startStream_fields:
  assumes "startStream e cfg s = (r, s')"
  shows "streamAttempts s' = streamAttempts s" "isStreamHealthy s' = isStreamHealthy s"
    "lastStreamCheck s' = lastStreamCheck s" "currentStream s' = currentStream s"
    "streamHealthCheck s' = streamHealthCheck s" "timers_made s' = timers_made s"
    "timeouts s' = timeouts s"
  using assms
  by (cases rule: startStream_cases; (simp add: pick_loop_fields)?; (simp split: if_splits add: pick_loop_fields)?)+

lemma startStream_no_launch:
  assumes "startStream e cfg s = (r, s')" "\<forall>h. r \<noteq> Some (Inr h)"
  shows "procs s' = procs s" "lastPlayedVideos s' = lastPlayedVideos s" "intervals s' = intervals s"
  using assms
  by (cases rule: startStream_cases; simp add: pick_loop_fields)+

lemma startStream_length_procs:
  assumes "startStream e cfg s = (r, s')"
  shows "length (procs s') = (case r of Some (Inr h) \<Rightarrow> Suc (length (procs s)) | _ \<Rightarrow> length (procs s))"
  using assms
  by (cases rule: startStream_cases) (simp_all add: pick_loop_fields split: if_splits)

lemma restartStream_halted:
  "MAX_STREAM_ATTEMPTS \<le> streamAttempts s \<Longrightarrow> restartStream e cfg s = Some (say ErrMaxAttempts s)"
  by (simp add: restartStream_def)

lemma restartStream_attempts:
  assumes "restartStream e cfg s = Some s'"
  shows "streamAttempts s' =
         (if MAX_STREAM_ATTEMPTS \<le> streamAttempts s then streamAttempts s else streamAttempts s + 1)"
proof (cases "MAX_STREAM_ATTEMPTS \<le> streamAttempts s")
  case True
  with assms show ?thesis by (auto simp: restartStream_halted)
next
  case False
  let ?s2 = "(say (LogAttemptRestart (streamAttempts s + 1)) s)\<lparr>streamAttempts := streamAttempts s + 1\<rparr>"
  obtain r s3 where st: "startStream e cfg ?s2 = (r, s3)" by (cases "startStream e cfg ?s2")
  from startStream_fields(1)[OF st] have "streamAttempts s3 = streamAttempts s + 1" by simp
  with assms False st show ?thesis
    by (auto simp: restartStream_def Let_def split: option.splits sum.splits)
qed

lemma restartStream_undefined:
  "streamAttempts s < MAX_STREAM_ATTEMPTS \<Longrightarrow>
   restartStream e None s =
     Some (s\<lparr>streamAttempts := streamAttempts s + 1,
             timeouts := timeouts s @ [(STREAM_RETRY_DELAY, None)],
             console := console s @ [LogAttemptRestart (streamAttempts s + 1), ErrRestart TypeError]\<rparr>)"
  by (simp add: restartStream_def startStream_def Let_def say_def)

subsection \<open>The health monitor and the handlers, field by field\<close>

lemma monitorStreamHealth_eq:
  "monitorStreamHealth e s =
     Some (if currentStream s \<noteq> None \<and> now e - lastStreamCheck s > HEALTH_CHECK_INTERVAL then
             (if isStreamHealthy s then s\<lparr>lastStreamCheck := now e\<rparr>
              else if streamAttempts s < MAX_STREAM_ATTEMPTS then
                s\<lparr>streamAttempts := streamAttempts s + 1, lastStreamCheck := now e,
                  timeouts := timeouts s @ [(STREAM_RETRY_DELAY, None)],
                  console := console s @ [LogHealthCheckFailed,
                     LogAttemptRestart (streamAttempts s + 1), ErrRestart TypeError]\<rparr>
              else s\<lparr>lastStreamCheck := now e,
                     console := console s @ [LogHealthCheckFailed, ErrMaxAttempts]\<rparr>)
           else s)"
proof (cases "currentStream s")
  case None
  then show ?thesis by (simp add: monitorStreamHealth_def)
next
  case (Some h)
  show ?thesis
  proof (cases "isStreamHealthy s")
    case True
    with Some show ?thesis by (simp add: monitorStreamHealth_def)
  next
    case False
    show ?thesis
    proof (cases "streamAttempts s < MAX_STREAM_ATTEMPTS")
      case True
      then have "streamAttempts (say LogHealthCheckFailed s) < MAX_STREAM_ATTEMPTS" by simp
      from restartStream_undefined[OF this] Some False True show ?thesis
        by (simp add: monitorStreamHealth_def say_def)
    next
      case no: False
      then have "MAX_STREAM_ATTEMPTS \<le> streamAttempts (say LogHealthCheckFailed s)" by simp
      from restartStream_halted[OF this] Some False no show ?thesis
        by (simp add: monitorStreamHealth_def say_def)
    qed
  qed
qed

lemma setInterval_fields [simp]:
  "streamAttempts (setInterval s) = streamAttempts s"
  "isStreamHealthy (setInterval s) = isStreamHealthy s"
  "lastStreamCheck (setInterval s) = lastStreamCheck s"
  "currentStream (setInterval s) = currentStream s"
  "lastPlayedVideos (setInterval s) = lastPlayedVideos s"
  "procs (setInterval s) = procs s"
  "timeouts (setInterval s) = timeouts s"
  "console (setInterval s) = console s"
  by (simp_all add: setInterval_def)

lemma resolve_fields [simp]:
  "currentStream (resolve e h s) = currentStream s"
  "lastPlayedVideos (resolve e h s) = lastPlayedVideos s"
  "streamHealthCheck (resolve e h s) = streamHealthCheck s"
  "intervals (resolve e h s) = intervals s"
  "timers_made (resolve e h s) = timers_made s"
  "timeouts (resolve e h s) = timeouts s"
  "console (resolve e h s) = console s"
  "length (procs (resolve e h s)) = length (procs s)"
  by (simp_all add: resolve_def resetStreamState_def Let_def)

lemma on_start_fields [simp]:
  "lastPlayedVideos (on_start e h s) = lastPlayedVideos s"
  "timeouts (on_start e h s) = timeouts s"
  "length (procs (on_start e h s)) = length (procs s)"
  "currentStream (on_start e h s) = Some h"
  by (simp_all add: on_start_def Let_def)

lemma on_error_fields [simp]:
  "streamAttempts (on_error h m s) = streamAttempts s"
  "isStreamHealthy (on_error h m s) = False"
  "lastStreamCheck (on_error h m s) = lastStreamCheck s"
  "currentStream (on_error h m s) = currentStream s"
  "lastPlayedVideos (on_error h m s) = lastPlayedVideos s"
  "streamHealthCheck (on_error h m s) = streamHealthCheck s"
  "procs (on_error h m s) = procs s"
  "intervals (on_error h m s) = intervals s"
  "timers_made (on_error h m s) = timers_made s"
  by (simp_all add: on_error_def Let_def)

lemma on_end_fields [simp]:
  "streamAttempts (on_end h s) = streamAttempts s"
  "isStreamHealthy (on_end h s) = False"
  "lastStreamCheck (on_end h s) = lastStreamCheck s"
  "currentStream (on_end h s) = currentStream s"
  "lastPlayedVideos (on_end h s) = lastPlayedVideos s"
  "streamHealthCheck (on_end h s) = streamHealthCheck s"
  "procs (on_end h s) = procs s"
  "intervals (on_end h s) = intervals s"
  "timers_made (on_end h s) = timers_made s"
  "timeouts (on_end h s) = timeouts s @ [(STREAM_RETRY_DELAY, Some (p_config (procs s ! h)))]"
  "console (on_end h s) = console s @ [LogEnded]"
  by (simp_all add: on_end_def Let_def)

subsection \<open>The commands across a call of \<^verbatim>\<open>startStream\<close>\<close>

lemma kill_nth:
  "i < length (procs s) \<Longrightarrow>
   procs (kill h s) ! i = (if i = h then (procs s ! i)\<lparr>p_killed := True\<rparr> else procs s ! i)"
  by (simp add: kill_def)

lemma kill_previous_nth:
  "i < length (procs s) \<Longrightarrow>
   procs (kill_previous e s) ! i =
     (if currentStream s = Some i \<and> \<not> kill_throws e then (procs s ! i)\<lparr>p_killed := True\<rparr>
      else procs s ! i)"
  by (auto simp: kill_previous_def kill_nth split: option.splits)

lemma startStream_old_procs:
  assumes "startStream e cfg s = (r, s')" "i < length (procs s)"
  shows "i < length (procs s')"
    "procs s' ! i =
       (if (\<exists>h. r = Some (Inr h)) \<and> currentStream s = Some i \<and> \<not> kill_throws e
        then (procs s ! i)\<lparr>p_killed := True\<rparr> else procs s ! i)"
  using assms
  by (cases rule: startStream_cases;
      simp add: pick_loop_fields nth_append kill_previous_nth split: if_splits)+

lemma startStream_new_proc:
  assumes "startStream e cfg s = (Some (Inr h), s')"
  shows "h = length (procs s)" "length (procs s') = Suc (length (procs s))"
    "p_promise (procs s' ! h) = Pending" "\<not> p_awaited (procs s' ! h)" "\<not> p_killed (procs s' ! h)"
    "\<exists>c. cfg = Some c \<and> p_config (procs s' ! h) = c
         \<and> p_dest (procs s' ! h) = streamUrl c @ ''/'' @ streamKey c"
  using assms
  by (cases rule: startStream_cases;
      simp add: pick_loop_fields nth_append split: if_splits)+

subsection \<open>\<^verbatim>\<open>restartStream\<close> by cases, and the recently played set\<close>

lemma await_start_nth:
  "i < length (procs s) \<Longrightarrow>
   procs (await_start h s) ! i = (if i = h then (procs s ! i)\<lparr>p_awaited := True\<rparr> else procs s ! i)"
  by (simp add: await_start_def)

lemma restartStream_cases:
  assumes "restartStream e cfg s = Some s'"
  obtains (halted) "MAX_STREAM_ATTEMPTS \<le> streamAttempts s" "s' = say ErrMaxAttempts s"
  | (caught) err s3 where "streamAttempts s < MAX_STREAM_ATTEMPTS"
      "startStream e cfg ((say (LogAttemptRestart (streamAttempts s + 1)) s)
           \<lparr>streamAttempts := streamAttempts s + 1\<rparr>) = (Some (Inl err), s3)"
      "s' = (say (ErrRestart err) s3)\<lparr>timeouts := timeouts s3 @ [(STREAM_RETRY_DELAY, cfg)]\<rparr>"
  | (suspended) h s3 where "streamAttempts s < MAX_STREAM_ATTEMPTS"
      "startStream e cfg ((say (LogAttemptRestart (streamAttempts s + 1)) s)
           \<lparr>streamAttempts := streamAttempts s + 1\<rparr>) = (Some (Inr h), s3)"
      "s' = await_start h s3"
proof (cases "MAX_STREAM_ATTEMPTS \<le> streamAttempts s")
  case True
  with assms halted show ?thesis by (auto simp: restartStream_halted)
next
  case False
  let ?s2 = "(say (LogAttemptRestart (streamAttempts s + 1)) s)\<lparr>streamAttempts := streamAttempts s + 1\<rparr>"
  obtain r s3 where st: "startStream e cfg ?s2 = (r, s3)" by (cases "startStream e cfg ?s2")
  show ?thesis
  proof (cases r)
    case None
    with assms False st show ?thesis by (simp add: restartStream_def Let_def)
  next
    case (Some a)
    show ?thesis
    proof (cases a)
      case (Inl err)
      with assms False st Some
      have "s' = (say (ErrRestart err) s3)\<lparr>timeouts := timeouts s3 @ [(STREAM_RETRY_DELAY, cfg)]\<rparr>"
        by (simp add: restartStream_def Let_def)
      with caught[of err s3] False st Some Inl show ?thesis by simp
    next
      case (Inr h)
      with assms False st Some have "s' = await_start h s3"
        by (simp add: restartStream_def Let_def)
      with suspended[of h s3] False st Some Inr show ?thesis by simp
    qed
  qed
qed

lemma restartStream_old_procs:
  assumes "restartStream e cfg s = Some s'" "i < length (procs s)"
  shows "i < length (procs s')" "p_promise (procs s' ! i) = p_promise (procs s ! i)"
    "p_awaited (procs s' ! i) = p_awaited (procs s ! i)"
    "p_config (procs s' ! i) = p_config (procs s ! i)"
proof -
  from assms(1) have "i < length (procs s') \<and> p_promise (procs s' ! i) = p_promise (procs s ! i)
     \<and> p_awaited (procs s' ! i) = p_awaited (procs s ! i)
     \<and> p_config (procs s' ! i) = p_config (procs s ! i)"
  proof (cases rule: restartStream_cases)
    case halted
    with assms(2) show ?thesis by simp
  next
    case (caught err s3)
    from startStream_old_procs[OF caught(2)] assms(2) caught(3) show ?thesis by simp
  next
    case (suspended h s3)
    from startStream_new_proc(1)[OF suspended(2)] have "h = length (procs s)" by simp
    with startStream_old_procs[OF suspended(2)] assms(2) suspended(3) show ?thesis
      by (simp add: await_start_nth)
  qed
  then show "i < length (procs s')" "p_promise (procs s' ! i) = p_promise (procs s ! i)"
    "p_awaited (procs s' ! i) = p_awaited (procs s ! i)"
    "p_config (procs s' ! i) = p_config (procs s ! i)" by simp_all
qed

lemma set_add_size: "set_size xs \<le> set_size (set_add xs v)" "set_size (set_add xs v) \<le> set_size xs + 1"
  by (simp_all add: set_add_def set_size_def)

lemma set_add_distinct: "distinct xs \<Longrightarrow> distinct (set_add xs v)"
  by (simp add: set_add_def set_has_def)

lemma startStream_played:
  assumes "startStream e cfg s = (r, s')"
  shows "lastPlayedVideos s' =
     (case r of
        Some (Inr h) \<Rightarrow>
          if 61 \<le> set_size (set_add (lastPlayedVideos s) (p_input (procs s' ! h))) then []
          else set_add (lastPlayedVideos s) (p_input (procs s' ! h))
      | _ \<Rightarrow> lastPlayedVideos s)"
  using assms
  by (cases rule: startStream_cases) (simp_all add: pick_loop_fields nth_append)

lemma startStream_played_ok:
  assumes "startStream e cfg s = (r, s')"
    and "set_size (lastPlayedVideos s) < 61 \<and> distinct (lastPlayedVideos s)"
  shows "set_size (lastPlayedVideos s') < 61 \<and> distinct (lastPlayedVideos s')"
  using assms(2) unfolding startStream_played[OF assms(1)]
  by (auto simp: set_add_distinct set_size_def split: option.splits sum.splits)

lemma restartStream_played_ok:
  assumes "restartStream e cfg s = Some s'"
    and "set_size (lastPlayedVideos s) < 61 \<and> distinct (lastPlayedVideos s)"
  shows "set_size (lastPlayedVideos s') < 61 \<and> distinct (lastPlayedVideos s')"
  using assms(1)
proof (cases rule: restartStream_cases)
  case halted
  with assms(2) show ?thesis by simp
next
  case (caught err s3)
  from startStream_played_ok[OF caught(2)] assms(2) caught(3) show ?thesis by simp
next
  case (suspended h s3)
  from startStream_played_ok[OF suspended(2)] assms(2) suspended(3) show ?thesis by simp
qed

subsection \<open>Steps and runs\<close>

lemma step_played_ok:
  assumes "step ev s = Some s'"
    and ok: "set_size (lastPlayedVideos s) < 61 \<and> distinct (lastPlayedVideos s)"
  shows "set_size (lastPlayedVideos s') < 61 \<and> distinct (lastPlayedVideos s')"
proof (cases ev)
  case (StartStreamCall e cfg)
  obtain r s1 where st: "startStream e cfg s = (r, s1)" by (cases "startStream e cfg s")
  with assms(1) StartStreamCall have "s' = s1" by (auto simp: step_def split: option.splits)
  with startStream_played_ok[OF st ok] show ?thesis by simp
next
  case (Started e h)
  with assms show ?thesis by (auto simp: step_def)
next
  case (Failed h m)
  with assms show ?thesis by (auto simp: step_def)
next
  case (Ended h)
  with assms show ?thesis by (auto simp: step_def)
next
  case (TimeoutFired e i)
  show ?thesis
  proof (cases "i < length (timeouts s)")
    case True
    with assms(1) TimeoutFired
    have "restartStream e (snd (timeouts s ! i))
            (s\<lparr>timeouts := take i (timeouts s) @ drop (Suc i) (timeouts s)\<rparr>) = Some s'"
      by (simp add: step_def)
    from restartStream_played_ok[OF this] ok show ?thesis by simp
  next
    case False
    with assms TimeoutFired show ?thesis by (auto simp: step_def)
  qed
next
  case (IntervalTick e t)
  with assms show ?thesis
    by (auto simp: step_def monitorStreamHealth_eq split: if_splits)
qed

lemma run_played_ok:
  "run evs s = Some s' \<Longrightarrow> set_size (lastPlayedVideos s) < 61 \<and> distinct (lastPlayedVideos s) \<Longrightarrow>
   set_size (lastPlayedVideos s') < 61 \<and> distinct (lastPlayedVideos s')"
proof (induction evs arbitrary: s)
  case Nil
  then show ?case by simp
next
  case (Cons ev evs)
  from Cons.prems(1) obtain s1 where s1: "step ev s = Some s1" "run evs s1 = Some s'"
    by (auto split: option.splits)
  from step_played_ok[OF s1(1) Cons.prems(2)] Cons.IH[OF s1(2)] show ?case by simp
qed

lemma step_halted:
  assumes "streamAttempts s = MAX_STREAM_ATTEMPTS" "\<not> is_call ev" "started_handle ev = None"
  shows "\<exists>s'. step ev s = Some s' \<and> procs s' = procs s \<and> streamAttempts s' = MAX_STREAM_ATTEMPTS"
proof (cases ev)
  case (TimeoutFired e i)
  with assms(1) show ?thesis by (simp add: step_def restartStream_halted)
next
  case (IntervalTick e t)
  with assms(1) show ?thesis by (simp add: step_def monitorStreamHealth_eq)
qed (use assms in \<open>simp_all add: step_def\<close>)

lemma run_halted:
  "streamAttempts s = MAX_STREAM_ATTEMPTS \<Longrightarrow>
   \<forall>ev \<in> set evs. \<not> is_call ev \<and> started_handle ev = None \<Longrightarrow>
   \<exists>s'. run evs s = Some s' \<and> procs s' = procs s \<and> streamAttempts s' = MAX_STREAM_ATTEMPTS"
proof (induction evs arbitrary: s)
  case Nil
  then show ?case by simp
next
  case (Cons ev evs)
  from Cons.prems have "\<not> is_call ev" "started_handle ev = None" by simp_all
  from step_halted[OF Cons.prems(1) this] obtain s1 where
    s1: "step ev s = Some s1" "procs s1 = procs s" "streamAttempts s1 = MAX_STREAM_ATTEMPTS" by blast
  from Cons.prems(2) have "\<forall>ev \<in> set evs. \<not> is_call ev \<and> started_handle ev = None" by simp
  from Cons.IH[OF s1(3) this] s1 show ?case by simp
qed

subsection \<open>Promises across steps and runs\<close>

lemma resolve_nth_other:
  "i < length (procs s) \<Longrightarrow> i \<noteq> h \<Longrightarrow> procs (resolve e h s) ! i = procs s ! i"
  by (simp add: resolve_def resetStreamState_def Let_def)

lemma resolve_nth_same:
  "h < length (procs s) \<Longrightarrow> p_promise (procs (resolve e h s) ! h) = Resolved"
  by (cases "p_promise (procs s ! h)") (simp_all add: resolve_def resetStreamState_def Let_def)

lemma on_start_nth_other:
  "i < length (procs s) \<Longrightarrow> i \<noteq> h \<Longrightarrow> procs (on_start e h s) ! i = procs s ! i"
  by (simp add: on_start_def Let_def resolve_nth_other)

lemma on_start_resolves:
  "h < length (procs s) \<Longrightarrow> p_promise (procs (on_start e h s) ! h) = Resolved"
  by (simp add: on_start_def Let_def resolve_nth_same)

lemma step_keeps_promise:
  assumes "step ev s = Some s'" "i < length (procs s)" "started_handle ev \<noteq> Some i"
  shows "i < length (procs s') \<and> p_promise (procs s' ! i) = p_promise (procs s ! i)"
proof (cases ev)
  case (StartStreamCall e cfg)
  obtain r s1 where st: "startStream e cfg s = (r, s1)" by (cases "startStream e cfg s")
  with assms(1) StartStreamCall have "s' = s1" by (auto simp: step_def split: option.splits)
  with startStream_old_procs[OF st assms(2)] show ?thesis by simp
next
  case (Started e h)
  with assms show ?thesis by (auto simp: step_def on_start_nth_other)
next
  case (Failed h m)
  with assms show ?thesis by (auto simp: step_def)
next
  case (Ended h)
  with assms show ?thesis by (auto simp: step_def)
next
  case (TimeoutFired e j)
  show ?thesis
  proof (cases "j < length (timeouts s)")
    case True
    with assms(1) TimeoutFired
    have "restartStream e (snd (timeouts s ! j))
            (s\<lparr>timeouts := take j (timeouts s) @ drop (Suc j) (timeouts s)\<rparr>) = Some s'"
      by (simp add: step_def)
    from restartStream_old_procs(1,2)[OF this, of i] assms(2) show ?thesis by simp
  next
    case False
    with assms TimeoutFired show ?thesis by (auto simp: step_def)
  qed
next
  case (IntervalTick e t)
  with assms show ?thesis
    by (auto simp: step_def monitorStreamHealth_eq split: if_splits)
qed

lemma run_keeps_promise:
  "run evs s = Some s' \<Longrightarrow> i < length (procs s) \<Longrightarrow> \<forall>ev \<in> set evs. started_handle ev \<noteq> Some i \<Longrightarrow>
   i < length (procs s') \<and> p_promise (procs s' ! i) = p_promise (procs s ! i)"
proof (induction evs arbitrary: s)
  case Nil
  then show ?case by simp
next
  case (Cons ev evs)
  from Cons.prems(1) obtain s1 where s1: "step ev s = Some s1" "run evs s1 = Some s'"
    by (auto split: option.splits)
  from Cons.prems(3) have a: "started_handle ev \<noteq> Some i" "\<forall>ev \<in> set evs. started_handle ev \<noteq> Some i"
    by simp_all
  from step_keeps_promise[OF s1(1) Cons.prems(2) a(1)]
  have b: "i < length (procs s1)" "p_promise (procs s1 ! i) = p_promise (procs s ! i)" by simp_all
  from Cons.IH[OF s1(2) b(1) a(2)] b(2) show ?case by simp
qed

lemma pick_loop_error:
  "pick_loop acc ds s = (Some (Inl err), s') \<Longrightarrow> \<exists>f. err = Error (not_found_message f)"
proof (induction ds arbitrary: s)
  case Nil
  then show ?case by simp
next
  case (Cons d ds)
  then show ?case
    by (auto simp: getRandomVideoFile_def Let_def split: if_splits)
qed

section \<open>The claims about the supervisor\<close>

subsection \<open>Evaluating concrete runs\<close>

lemmas eval_defs = step_def startStream_def restartStream_def monitorStreamHealth_def
  on_start_def on_error_def on_end_def resolve_def resetStreamState_def setInterval_def
  launch_def kill_previous_def kill_def clearInterval_def await_start_def say_def
  getRandomVideoFile_def set_has_def set_add_def set_size_def
  length_videoFiles videoFiles_nth video_name_digits digit_char_def
  initial_def env_ok_def cfg0_def MAX_STREAM_ATTEMPTS_def STREAM_RETRY_DELAY_def
  HEALTH_CHECK_INTERVAL_def Let_def

lemma five_failures_halt:
  "map_option (\<lambda>s. (streamAttempts s, length (procs s))) (run five_failures (initial 0)) = Some (5, 6)"
  by (simp add: five_failures_def eval_defs)

lemma unhealthy_run_state:
  "map_option (\<lambda>s. (currentStream s, isStreamHealthy s, lastStreamCheck s, streamAttempts s,
                     timeouts s, map p_config (procs s)))
     (run unhealthy_run (initial 0)) = Some (Some 0, False, 5, 0, [], [cfg0])"
  by (simp add: unhealthy_run_def eval_defs)

lemma unhealthy_then_timers_state:
  "map_option (\<lambda>s. (length (procs s), streamAttempts s, timeouts s, last (console s)))
     (run unhealthy_then_timers (initial 0)) = Some (1, 5, [], ErrMaxAttempts)"
  by (simp add: unhealthy_then_timers_def unhealthy_run_def eval_defs)

lemma live_run_state:
  "map_option (\<lambda>s. (currentStream s, streamHealthCheck s, intervals s, length (procs s),
                     lastPlayedVideos s))
     (run live_run (initial 0)) = Some (Some 0, Some 0, [0], 1, [''./assets/042.mp4''])"
  by (simp add: live_run_def eval_defs)

lemma kill_throws_run_state:
  "map_option (\<lambda>s. (intervals s, streamHealthCheck s, map p_killed (procs s), currentStream s))
     (run kill_throws_run (initial 0)) = Some ([0], Some 0, [False, False], Some 0)"
  by (simp add: kill_throws_run_def eval_defs env_kill_throws_def)

lemma manual_restart_state:
  "map_option (\<lambda>s. (streamAttempts s, currentStream s, isStreamHealthy s, length (procs s)))
     (run manual_restart (initial 0)) = Some (5, Some 6, True, 7)"
  by (simp add: manual_restart_def five_failures_def eval_defs)

lemma manual_restart_fails_state:
  "map_option (\<lambda>s. (streamAttempts s, length (procs s), timeouts s, last (console s)))
     (run manual_restart_fails (initial 0)) = Some (5, 7, [], ErrMaxAttempts)"
  by (simp add: manual_restart_fails_def manual_restart_def five_failures_def eval_defs)

subsection \<open>The halt after five attempts\<close>



subsection \<open>The recently played set\<close>

text \<open>
  Claim C5. The capacity 61 is below the catalog size. Adding to the set makes it at most
  one element larger. A call of \<^verbatim>\<open>startStream\<close> that launches an encoder adds the chosen
  path to the set and, when the set has then 61 elements or more, leaves it empty; a call
  that launches nothing leaves the set as it was. In every state that a run reaches from
  the initial state, the set holds fewer than 61 paths, each once.
\<close>

theorem recently_played_bounded:
  "61 < length videoFiles
   \<and> set_size (set_add xs v) \<le> set_size xs + 1
   \<and> (startStream e cfg s = (Some (Inr h), s') \<longrightarrow>
        lastPlayedVideos s' =
          (if 61 \<le> set_size (set_add (lastPlayedVideos s) (p_input (procs s' ! h))) then []
           else set_add (lastPlayedVideos s) (p_input (procs s' ! h))))
   \<and> (startStream e cfg s = (r, s') \<and> (\<forall>h. r \<noteq> Some (Inr h)) \<longrightarrow>
        lastPlayedVideos s' = lastPlayedVideos s)
   \<and> (run evs (initial t0) = Some s'' \<longrightarrow>
        set_size (lastPlayedVideos s'') < 61 \<and> distinct (lastPlayedVideos s''))"
proof -
  have "startStream e cfg s = (Some (Inr h), s') \<longrightarrow>
        lastPlayedVideos s' =
          (if 61 \<le> set_size (set_add (lastPlayedVideos s) (p_input (procs s' ! h))) then []
           else set_add (lastPlayedVideos s) (p_input (procs s' ! h)))"
    using startStream_played[of e cfg s "Some (Inr h)" s'] by simp
  moreover have "startStream e cfg s = (r, s') \<and> (\<forall>h. r \<noteq> Some (Inr h)) \<longrightarrow>
        lastPlayedVideos s' = lastPlayedVideos s"
    using startStream_no_launch(2)[of e cfg s r s'] by blast
  moreover have "run evs (initial t0) = Some s'' \<longrightarrow>
        set_size (lastPlayedVideos s'') < 61 \<and> distinct (lastPlayedVideos s'')"
    using run_played_ok[of evs "initial t0" s''] by (simp add: initial_def set_size_def)
  ultimately show ?thesis
    using set_add_size(2)[of xs v] by (simp add: length_videoFiles)
qed

lemma sixty_size: "set_size (lastPlayedVideos sixty_played) = 60"
  by (simp add: sixty_played_def set_size_def)

theorem recently_played_bounded_witness:
  "\<exists>s'. startStream (env_ok [100] 0) (Some cfg0) sixty_played = (Some (Inr 0), s')
      \<and> set_size (lastPlayedVideos sixty_played) = 60
      \<and> lastPlayedVideos s' = []
      \<and> (\<exists>s''. run (take 4 five_failures) (initial 0) = Some s''
             \<and> lastPlayedVideos s'' = [''./assets/042.mp4'', ''./assets/001.mp4''])"
proof -
  have vn: "video_name 100 \<notin> set (map video_name [0..<60])"
    by (auto dest: video_name_inj[rotated 2])
  then have vn': "video_name 100 \<notin> video_name ` {0..<60}" by simp
  obtain r s' where st: "startStream (env_ok [100] 0) (Some cfg0) sixty_played = (r, s')"
    by (cases "startStream (env_ok [100] 0) (Some cfg0) sixty_played")
  then have r: "r = Some (Inr 0)" and p: "p_input (procs s' ! 0) = video_name 100"
    by (auto simp: startStream_def getRandomVideoFile_def env_ok_def sixty_played_def initial_def Let_def
          videoFiles_nth length_videoFiles set_has_def set_add_def vn' say_def launch_def kill_previous_def
          set_size_def)
  have "set_size (set_add (lastPlayedVideos sixty_played) (video_name 100)) = 61"
    using vn by (simp add: set_add_def set_has_def set_size_def sixty_played_def)
  with recently_played_bounded[of _ _ "env_ok [100] 0" "Some cfg0" sixty_played 0 s'] st r p
  have a: "lastPlayedVideos s' = []" by simp
  have "map_option lastPlayedVideos (run (take 4 five_failures) (initial 0))
          = Some [''./assets/042.mp4'', ''./assets/001.mp4'']"
    by (simp add: five_failures_def eval_defs)
  then obtain s'' where s'': "run (take 4 five_failures) (initial 0) = Some s''"
     "lastPlayedVideos s'' = [''./assets/042.mp4'', ''./assets/001.mp4'']" by auto
  from st r a sixty_size s'' show ?thesis by simp
qed

subsection \<open>The promise of \<^verbatim>\<open>startStream\<close>\<close>



subsection \<open>The health monitor\<close>

text \<open>
  Claim C4. The health-check interval is 30000 ms. A tick of the monitor always returns,
  and it enters \<^verbatim>\<open>restartStream\<close> exactly when a current stream exists, the health flag
  is false and more than the interval has passed since \<open>lastStreamCheck\<close>; with the flag
  true it never does, whatever the time. The tick leaves the health flag as it found it.
\<close>

theorem health_monitor_trigger_iff:
  "HEALTH_CHECK_INTERVAL = 30000
   \<and> (\<exists>s'. monitorStreamHealth e s = Some s'
         \<and> (restart_entered s s' \<longleftrightarrow>
              currentStream s \<noteq> None \<and> \<not> isStreamHealthy s
              \<and> HEALTH_CHECK_INTERVAL < now e - lastStreamCheck s)
         \<and> (isStreamHealthy s \<longrightarrow> \<not> restart_entered s s')
         \<and> isStreamHealthy s' = isStreamHealthy s)"
  by (simp add: monitorStreamHealth_eq restart_entered_def HEALTH_CHECK_INTERVAL_def)

theorem health_monitor_trigger_iff_witness:
  "\<exists>s s' s1 s1'.
     run unhealthy_run (initial 0) = Some s
     \<and> currentStream s \<noteq> None \<and> \<not> isStreamHealthy s
     \<and> HEALTH_CHECK_INTERVAL < now (env_ok [] 40000) - lastStreamCheck s
     \<and> monitorStreamHealth (env_ok [] 40000) s = Some s' \<and> restart_entered s s'
     \<and> \<not> isStreamHealthy s'
     \<and> run (take 2 unhealthy_run) (initial 0) = Some s1 \<and> isStreamHealthy s1
     \<and> monitorStreamHealth (env_ok [] 40000) s1 = Some s1' \<and> \<not> restart_entered s1 s1'
     \<and> isStreamHealthy s1'"
proof -
  from unhealthy_run_state obtain s where s: "run unhealthy_run (initial 0) = Some s"
    "currentStream s = Some 0" "\<not> isStreamHealthy s" "lastStreamCheck s = 5" by auto
  then have c: "currentStream s \<noteq> None \<and> \<not> isStreamHealthy s
     \<and> HEALTH_CHECK_INTERVAL < now (env_ok [] 40000) - lastStreamCheck s"
    by (simp add: env_ok_def HEALTH_CHECK_INTERVAL_def)
  have "map_option isStreamHealthy (run (take 2 unhealthy_run) (initial 0)) = Some True"
    by (simp add: unhealthy_run_def eval_defs)
  then obtain s1 where s1: "run (take 2 unhealthy_run) (initial 0) = Some s1" "isStreamHealthy s1"
    by auto
  from health_monitor_trigger_iff[of "env_ok [] 40000" s] c
  obtain s' where s': "monitorStreamHealth (env_ok [] 40000) s = Some s'" "restart_entered s s'"
    "\<not> isStreamHealthy s'" by auto
  from health_monitor_trigger_iff[of "env_ok [] 40000" s1] s1(2)
  obtain s1' where s1': "monitorStreamHealth (env_ok [] 40000) s1 = Some s1'"
    "\<not> restart_entered s1 s1'" "isStreamHealthy s1'" by auto
  from s(1) c s' s1 s1' show ?thesis
    by (intro exI[of _ s] exI[of _ s'] exI[of _ s1] exI[of _ s1']) simp
qed

text \<open>
  Claim C8. \<^verbatim>\<open>startStream\<close> called with \<^verbatim>\<open>undefined\<close> rejects with a \<^verbatim>\<open>TypeError\<close> and
  changes nothing. When the monitor triggers a restart below the maximum of attempts, the
  attempt is counted, the rejection is caught and logged, and the retry that is scheduled
  carries \<^verbatim>\<open>undefined\<close> again, not the configuration of the current session. No tick of
  the monitor builds an encoder command, and every retry it schedules is without a
  configuration.
\<close>

theorem monitor_restarts_without_config:
  "startStream e None s = (Some (Inl TypeError), s)
   \<and> (currentStream s \<noteq> None \<and> \<not> isStreamHealthy s
        \<and> HEALTH_CHECK_INTERVAL < now e - lastStreamCheck s
        \<and> streamAttempts s < MAX_STREAM_ATTEMPTS \<longrightarrow>
      monitorStreamHealth e s =
        Some (s\<lparr>streamAttempts := streamAttempts s + 1, lastStreamCheck := now e,
                timeouts := timeouts s @ [(STREAM_RETRY_DELAY, None)],
                console := console s @ [LogHealthCheckFailed,
                   LogAttemptRestart (streamAttempts s + 1), ErrRestart TypeError]\<rparr>))
   \<and> (monitorStreamHealth e s = Some s' \<longrightarrow>
        procs s' = procs s
        \<and> (\<forall>t \<in> set (drop (length (timeouts s)) (timeouts s')). snd t = None))"
  by (auto simp: monitorStreamHealth_eq startStream_def split: if_splits)

theorem monitor_restarts_without_config_witness:
  "\<exists>s s'.
     run unhealthy_run (initial 0) = Some s
     \<and> currentStream s \<noteq> None \<and> \<not> isStreamHealthy s
     \<and> HEALTH_CHECK_INTERVAL < now (env_ok [7] 40000) - lastStreamCheck s
     \<and> streamAttempts s < MAX_STREAM_ATTEMPTS
     \<and> monitorStreamHealth (env_ok [7] 40000) s = Some s'
     \<and> timeouts s' = [(STREAM_RETRY_DELAY, None)] \<and> streamAttempts s' = 1
     \<and> procs s' = procs s \<and> map p_config (procs s) = [cfg0]
     \<and> (\<forall>t \<in> set (drop (length (timeouts s)) (timeouts s')). snd t = None)"
proof -
  from unhealthy_run_state obtain s where s: "run unhealthy_run (initial 0) = Some s"
    "currentStream s = Some 0" "\<not> isStreamHealthy s" "lastStreamCheck s = 5" "streamAttempts s = 0"
    "timeouts s = []" "map p_config (procs s) = [cfg0]" by auto
  then have c: "currentStream s \<noteq> None \<and> \<not> isStreamHealthy s
     \<and> HEALTH_CHECK_INTERVAL < now (env_ok [7] 40000) - lastStreamCheck s
     \<and> streamAttempts s < MAX_STREAM_ATTEMPTS"
    by (simp add: env_ok_def HEALTH_CHECK_INTERVAL_def MAX_STREAM_ATTEMPTS_def)
  define s' where "s' = s\<lparr>streamAttempts := streamAttempts s + 1, lastStreamCheck := now (env_ok [7] 40000),
                timeouts := timeouts s @ [(STREAM_RETRY_DELAY, None)],
                console := console s @ [LogHealthCheckFailed,
                   LogAttemptRestart (streamAttempts s + 1), ErrRestart TypeError]\<rparr>"
  from monitor_restarts_without_config[of "env_ok [7] 40000" s s'] c
  have m: "monitorStreamHealth (env_ok [7] 40000) s = Some s'"
    and p: "procs s' = procs s"
    and t: "\<forall>t \<in> set (drop (length (timeouts s)) (timeouts s')). snd t = None"
    unfolding s'_def by blast+
  from s have f: "timeouts s' = [(STREAM_RETRY_DELAY, None)]" "streamAttempts s' = 1"
    by (simp_all add: s'_def)
  from s(1,7) c m p t f show ?thesis
    by (intro exI[of _ s] exI[of _ s']) simp
qed

subsection \<open>The \<^verbatim>\<open>error\<close> and \<^verbatim>\<open>end\<close> handlers\<close>

text \<open>
  Claim C2 says that every \<^verbatim>\<open>error\<close> or \<^verbatim>\<open>end\<close> event of a live session schedules a
  restart, whatever the kind of the failure. In the run \<open>unhealthy_run\<close> a live session
  fails with \<^verbatim>\<open>Invalid data found when processing input\<close>: the stream is marked unhealthy,
  it is still the current one, and no restart is pending. In \<open>unhealthy_then_timers\<close> the
  monitor then finds the stream unhealthy and every timer that follows fires: the five
  attempts are used up on the undefined configuration and the only command ever built is
  the first one.
\<close>

theorem unclassified_failure_not_retried:
  "map_option timeouts (run unhealthy_run (initial 0)) = Some []
   \<and> map_option isStreamHealthy (run unhealthy_run (initial 0)) = Some False
   \<and> map_option currentStream (run unhealthy_run (initial 0)) = Some (Some 0)
   \<and> map_option (length \<circ> procs) (run unhealthy_then_timers (initial 0)) = Some 1
   \<and> map_option streamAttempts (run unhealthy_then_timers (initial 0)) = Some 5"
  using unhealthy_run_state unhealthy_then_timers_state
  by (auto simp: map_option_case split: option.splits)

text \<open>
  Claim C2, as the code has it. The retry delay is 10000 ms. The \<^verbatim>\<open>end\<close> handler always
  schedules a restart with the configuration of its session. The \<^verbatim>\<open>error\<close> handler
  schedules one exactly when the message contains \<^verbatim>\<open>SIGKILL\<close>, \<^verbatim>\<open>Connection refused\<close> or
  \<^verbatim>\<open>Connection timed out\<close>, and none otherwise. Both mark the stream unhealthy.
\<close>

theorem retry_follows_classification:
  "STREAM_RETRY_DELAY = 10000
   \<and> timeouts (on_end h s) = timeouts s @ [(STREAM_RETRY_DELAY, Some (p_config (procs s ! h)))]
   \<and> \<not> isStreamHealthy (on_end h s)
   \<and> timeouts (on_error h m s) =
       (if includes_str m ''SIGKILL'' \<or> includes_str m ''Connection refused''
           \<or> includes_str m ''Connection timed out''
        then timeouts s @ [(STREAM_RETRY_DELAY, Some (p_config (procs s ! h)))]
        else timeouts s)
   \<and> \<not> isStreamHealthy (on_error h m s)"
  by (simp add: on_error_def Let_def STREAM_RETRY_DELAY_def)

theorem retry_follows_classification_witness:
  "\<exists>s. run (take 2 unhealthy_run) (initial 0) = Some s
     \<and> timeouts (on_end 0 s) = [(10000, Some cfg0)]
     \<and> timeouts (on_error 0 ''ffmpeg exited: Connection refused'' s) = [(10000, Some cfg0)]
     \<and> timeouts (on_error 0 ''ffmpeg was killed with signal SIGTERM'' s) = []
     \<and> \<not> isStreamHealthy (on_error 0 ''ffmpeg was killed with signal SIGTERM'' s)"
proof -
  have "map_option (\<lambda>s. (timeouts s, map p_config (procs s))) (run (take 2 unhealthy_run) (initial 0))
          = Some ([], [cfg0])"
    by (simp add: unhealthy_run_def eval_defs)
  then obtain s where s: "run (take 2 unhealthy_run) (initial 0) = Some s" "timeouts s = []"
    "map p_config (procs s) = [cfg0]" by auto
  from s(3) have p: "p_config (procs s ! 0) = cfg0" by (cases "procs s") auto
  have i: "includes_str ''ffmpeg exited: Connection refused'' ''Connection refused''"
    "\<not> includes_str ''ffmpeg was killed with signal SIGTERM'' ''SIGKILL''"
    "\<not> includes_str ''ffmpeg was killed with signal SIGTERM'' ''Connection refused''"
    "\<not> includes_str ''ffmpeg was killed with signal SIGTERM'' ''Connection timed out''"
    by simp_all
  from retry_follows_classification[of 0 s "''ffmpeg exited: Connection refused''"]
    retry_follows_classification[of 0 s "''ffmpeg was killed with signal SIGTERM''"] s p i
  show ?thesis by (intro exI[of _ s]) simp
qed

subsection \<open>The selection\<close>

lemma getRandomVideoFile_eq:
  "d < length videoFiles \<Longrightarrow>
   getRandomVideoFile acc d s =
     (if acc (videoFiles ! d) then (Inr (videoFiles ! d), say (LogSelected (videoFiles ! d)) s)
      else (Inl (Error (not_found_message (videoFiles ! d))), say (ErrAccess (videoFiles ! d)) s))"
  by (simp add: getRandomVideoFile_def Let_def)


lemma pick_loop_trace:
  "\<forall>d \<in> set ds. d < length videoFiles \<Longrightarrow> pick_loop acc ds s = (Some r, s') \<Longrightarrow>
   \<exists>n < length ds.
     (\<forall>i < n. acc (videoFiles ! (ds ! i)) \<and> set_has (lastPlayedVideos s) (videoFiles ! (ds ! i))
              \<and> set_size (lastPlayedVideos s) < 61)
     \<and> (case r of
          Inr v \<Rightarrow> v = videoFiles ! (ds ! n) \<and> acc v
                  \<and> \<not> (set_has (lastPlayedVideos s) v \<and> set_size (lastPlayedVideos s) < 61)
        | Inl err \<Rightarrow> \<not> acc (videoFiles ! (ds ! n))
                  \<and> err = Error (not_found_message (videoFiles ! (ds ! n))))"
proof (induction ds arbitrary: s)
  case Nil
  then show ?case by simp
next
  case (Cons d ds)
  let ?f = "videoFiles ! d"
  let ?s1 = "say (LogSelected ?f) s"
  from Cons.prems(1) have d: "d < length videoFiles" and ds: "\<forall>d \<in> set ds. d < length videoFiles"
    by simp_all
  show ?case
  proof (cases "acc ?f")
    case False
    with Cons.prems(2) d have "r = Inl (Error (not_found_message ?f))"
      by (simp add: getRandomVideoFile_eq)
    with False show ?thesis by (intro exI[of _ 0]) simp
  next
    case True
    show ?thesis
    proof (cases "set_has (lastPlayedVideos s) ?f \<and> set_size (lastPlayedVideos s) < 61")
      case False
      with Cons.prems(2) d True have "r = Inr ?f"
        by (auto simp: getRandomVideoFile_eq)
      with True False show ?thesis by (intro exI[of _ 0]) auto
    next
      case again: True
      with Cons.prems(2) d True have "pick_loop acc ds ?s1 = (Some r, s')"
        by (simp add: getRandomVideoFile_eq)
      from Cons.IH[OF ds this] obtain n where "n < length ds \<and>
        (\<forall>i < n. acc (videoFiles ! (ds ! i)) \<and> set_has (lastPlayedVideos ?s1) (videoFiles ! (ds ! i))
              \<and> set_size (lastPlayedVideos ?s1) < 61) \<and>
        (case r of
          Inr v \<Rightarrow> v = videoFiles ! (ds ! n) \<and> acc v
                  \<and> \<not> (set_has (lastPlayedVideos ?s1) v \<and> set_size (lastPlayedVideos ?s1) < 61)
        | Inl err \<Rightarrow> \<not> acc (videoFiles ! (ds ! n))
                  \<and> err = Error (not_found_message (videoFiles ! (ds ! n))))"
        by blast
      then have n: "n < length ds"
        "\<forall>i < n. acc (videoFiles ! (ds ! i)) \<and> set_has (lastPlayedVideos s) (videoFiles ! (ds ! i))
              \<and> set_size (lastPlayedVideos s) < 61"
        "case r of
          Inr v \<Rightarrow> v = videoFiles ! (ds ! n) \<and> acc v
                  \<and> \<not> (set_has (lastPlayedVideos s) v \<and> set_size (lastPlayedVideos s) < 61)
        | Inl err \<Rightarrow> \<not> acc (videoFiles ! (ds ! n))
                  \<and> err = Error (not_found_message (videoFiles ! (ds ! n)))"
        unfolding say_fields by simp_all
      have "\<forall>i < Suc n. acc (videoFiles ! ((d # ds) ! i))
              \<and> set_has (lastPlayedVideos s) (videoFiles ! ((d # ds) ! i))
              \<and> set_size (lastPlayedVideos s) < 61"
        using n(2) True again by (auto simp: less_Suc_eq_0_disj)
      with n(1,3) show ?thesis by (intro exI[of _ "Suc n"]) (simp split: sum.splits)
    qed
  qed
qed



subsection \<open>The previous session\<close>


lemma pick_loop_console:
  "pick_loop acc ds s = (r, s') \<Longrightarrow> \<exists>ls. console s' = console s @ ls"
  using pick_loop_frame[of acc ds s r s'] by auto

lemma startStream_launch_effects:
  assumes "startStream e cfg s = (Some (Inr h), s')"
  shows "intervals s' = intervals (kill_previous e s)
    \<and> (\<exists>ls. console s' = console s @ ls
            @ (if currentStream s \<noteq> None \<and> kill_throws e then [ErrKill] else []) @ [LogInit])"
  using assms
proof (cases rule: startStream_cases)
  case (launched c v s1 s3)
  note f = pick_loop_fields[OF launched(3)]
  from pick_loop_console[OF launched(3)] obtain ls where
    ls: "console s1 = console s @ LogStartingStream (streamUrl c) (length (streamKey c)) # ls"
    by auto
  from f launched(4) have i: "intervals s3 = intervals s" "currentStream s3 = currentStream s"
    "streamHealthCheck s3 = streamHealthCheck s" by (simp_all split: if_splits)
  from launched(5) i have a: "intervals s' = intervals (kill_previous e s)"
    by (simp add: kill_previous_def clearInterval_def split: option.splits)
  from ls launched(4) obtain ls' where "console s3 = console s @ ls'"
    by (cases "61 \<le> set_size (set_add (lastPlayedVideos s) v)") auto
  with launched(5) i(2) have "\<exists>ls. console s' = console s @ ls
            @ (if currentStream s \<noteq> None \<and> kill_throws e then [ErrKill] else []) @ [LogInit]"
    by (auto simp: kill_previous_def split: option.splits)
  with a show ?thesis by simp
qed simp_all



subsection \<open>The attempt counter after a manual restart\<close>

text \<open>
  Claim C1 says that the attempt counter is 0 after any \<^verbatim>\<open>start\<close> event, also when the
  start was requested by a call of \<^verbatim>\<open>startStream\<close> from outside after the halt. In the run
  \<open>manual_restart\<close> five attempts fail, the supervisor halts, the application calls
  \<^verbatim>\<open>startStream\<close> and the encoder starts: the stream is current and healthy, and the
  counter is still 5. When that encoder then fails with \<^verbatim>\<open>Connection refused\<close>, the retry
  timer fires into the halt message and no command is built.
\<close>

theorem external_start_keeps_counter:
  "map_option streamAttempts (run manual_restart (initial 0)) = Some 5
   \<and> map_option currentStream (run manual_restart (initial 0)) = Some (Some 6)
   \<and> map_option isStreamHealthy (run manual_restart (initial 0)) = Some True
   \<and> map_option (length \<circ> procs) (run manual_restart_fails (initial 0)) = Some 7
   \<and> map_option (last \<circ> console) (run manual_restart_fails (initial 0)) = Some ErrMaxAttempts"
  using manual_restart_state manual_restart_fails_state
  by (auto simp: map_option_case split: option.splits)

end
